theory Spec2Isabelle
  imports Main "HOL-Library.AList"
begin

section \<open>Values of the configuration trees\<close>

text \<open>
  The program is JavaScript (\<^verbatim>\<open>src/index.js\<close>, in strict mode). A configuration tree is
  a JavaScript value: a scalar, a plain object or an array. An object is the list of its
  own properties, from property name to value, in the order of their creation; an array
  is an object of the kind \<open>Array\<close> whose property names are the decimal indices.

  Boundaries of the model, stated once:
  \<^item> only own data properties are modelled: the members an object inherits from its
    prototype (\<^verbatim>\<open>constructor\<close>, \<^verbatim>\<open>toString\<close>, ...) and the \<^verbatim>\<open>length\<close> of an array or
    of a string are not, so accessor segments and file extensions are taken not to
    name one of them;
  \<^item> trees are trees: no object is shared between two places;
  \<^item> numbers are integers (an all-digit segment or value is converted exactly, which
    JavaScript does up to \<open>2^53\<close>); characters are bytes, and letter case and white
    space are those of ASCII;
  \<^item> the platform is POSIX: the path separator is the slash and Node's \<^verbatim>\<open>path\<close> module
    is the POSIX one;
  \<^item> the configured delimiter is one character, and one that stands for itself in a
    regular expression.
\<close>

datatype kind = Mapping | Array

datatype jsval =
    JUndefined
  | JNull
  | JBool bool
  | JNum int
  | JStr string
  | JObj kind "(string \<times> jsval) list"

text \<open>The errors the code can raise inside the modelled part.\<close>

datatype error = TypeError

text \<open>\<^verbatim>\<open>!v\<close>: the values JavaScript takes for false.\<close>

fun falsy :: "jsval \<Rightarrow> bool" where
  "falsy JUndefined = True"
| "falsy JNull = True"
| "falsy (JBool b) = (\<not> b)"
| "falsy (JNum n) = (n = 0)"
| "falsy (JStr s) = (s = [])"
| "falsy (JObj k ps) = False"

section \<open>Accessor keys\<close>

text \<open>
  \<^verbatim>\<open>rxNumber = /^\d+$/\<close> and the unary plus of \<^verbatim>\<open>_getset\<close>:
  \<^verbatim>\<open>accessor.split( '.' ).map( key => rxNumber.test( key ) ? +key : key )\<close>.
  A segment of digits only becomes a number, any other segment stays a string.
\<close>

datatype key = KNum nat | KStr string

definition is_digit :: "char \<Rightarrow> bool" where
  "is_digit c = (c \<in> set ''0123456789'')"

definition rxNumber :: "string \<Rightarrow> bool" where
  "rxNumber s = (s \<noteq> [] \<and> list_all is_digit s)"

definition digit_val :: "char \<Rightarrow> nat" where
  "digit_val c = of_char c - 48"

definition to_number :: "string \<Rightarrow> nat" where
  "to_number s = foldl (\<lambda>n c. 10 * n + digit_val c) 0 s"

definition to_key :: "string \<Rightarrow> key" where
  "to_key s = (if rxNumber s then KNum (to_number s) else KStr s)"

text \<open>\<^verbatim>\<open>String.prototype.split\<close> with a separator of one character.\<close>

fun split_on :: "char \<Rightarrow> string \<Rightarrow> string list" where
  "split_on d [] = [[]]"
| "split_on d (c # cs) =
     (if c = d then [] # split_on d cs
      else (case split_on d cs of
              [] \<Rightarrow> [[c]]
            | w # ws \<Rightarrow> (c # w) # ws))"

text \<open>
  The name of the property a key reads or writes: JavaScript turns a number used as a
  property key into its decimal string.
\<close>

definition digit_char :: "nat \<Rightarrow> char" where
  "digit_char n = ''0123456789'' ! (n mod 10)"

function dec :: "nat \<Rightarrow> string" where
  "dec n = (if n < 10 then [digit_char n] else dec (n div 10) @ [digit_char n])"
  by pat_completeness auto
termination
  by (relation "measure id") auto

fun prop_name :: "key \<Rightarrow> string" where
  "prop_name (KNum n) = dec n"
| "prop_name (KStr s) = s"

section \<open>Reading and writing one property\<close>

text \<open>
  \<^verbatim>\<open>ref[ key ]\<close>. Reading a property of \<^verbatim>\<open>null\<close> or \<^verbatim>\<open>undefined\<close> raises a
  \<^verbatim>\<open>TypeError\<close>; a number or a boolean has no own property; a string has its
  characters at the indices; a property that is absent reads as \<^verbatim>\<open>undefined\<close>.
\<close>

definition lookup :: "(string \<times> jsval) list \<Rightarrow> string \<Rightarrow> jsval" where
  "lookup ps name = (case map_of ps name of None \<Rightarrow> JUndefined | Some v \<Rightarrow> v)"

fun get_prop :: "jsval \<Rightarrow> key \<Rightarrow> error + jsval" where
  "get_prop JUndefined k = Inl TypeError"
| "get_prop JNull k = Inl TypeError"
| "get_prop (JBool b) k = Inr JUndefined"
| "get_prop (JNum n) k = Inr JUndefined"
| "get_prop (JStr s) (KNum i) = Inr (if i < length s then JStr [s ! i] else JUndefined)"
| "get_prop (JStr s) (KStr n) = Inr JUndefined"
| "get_prop (JObj kd ps) k = Inr (lookup ps (prop_name k))"

text \<open>
  \<^verbatim>\<open>ref[ key ] = v\<close> in strict mode. An object or an array takes the property, whatever
  the shape of the key; on \<^verbatim>\<open>null\<close>, \<^verbatim>\<open>undefined\<close>, a number, a boolean or a string
  the assignment raises a \<^verbatim>\<open>TypeError\<close>.
\<close>

fun set_prop :: "jsval \<Rightarrow> key \<Rightarrow> jsval \<Rightarrow> error + jsval" where
  "set_prop (JObj kd ps) k v = Inr (JObj kd (AList.update (prop_name k) v ps))"
| "set_prop r k v = Inl TypeError"

section \<open>The path accessor\<close>

text \<open>
  \<^verbatim>\<open>typeof keys[ index + 1 ] === 'number' ? [] : {}\<close>: the container created at a
  missing node, from the key that follows.
\<close>

fun fresh :: "key list \<Rightarrow> jsval" where
  "fresh (KNum n # ks) = JObj Array []"
| "fresh ks = JObj Mapping []"

text \<open>
  The object a reference points to is changed in place, so after the walk has gone
  through \<^verbatim>\<open>ref[ key ]\<close> the parent holds the changed child. A scalar child is never
  changed, and a scalar parent holds nothing.
\<close>

fun put_back :: "jsval \<Rightarrow> key \<Rightarrow> jsval \<Rightarrow> jsval" where
  "put_back (JObj kd ps) k child = JObj kd (AList.update (prop_name k) child ps)"
| "put_back r k child = r"

text \<open>
  The body of \<^verbatim>\<open>keys.forEach\<close> in \<^verbatim>\<open>_getset\<close>, from the node \<open>ref\<close> on. The first
  argument is \<open>Some value\<close> when the call has three arguments and \<open>None\<close> when it has
  two. The result is the node after the walk and the last value of \<^verbatim>\<open>ref\<close>.
\<close>

fun getset_walk :: "jsval option \<Rightarrow> jsval \<Rightarrow> key list \<Rightarrow> error + (jsval \<times> jsval)" where
  "getset_walk wr ref [] = Inr (ref, ref)"
| "getset_walk wr ref (k # ks) =
     (case get_prop ref k of
        Inl e \<Rightarrow> Inl e
      | Inr cur \<Rightarrow>
         (case (if cur = JUndefined then set_prop ref k (fresh ks) else Inr ref) of
            Inl e \<Rightarrow> Inl e
          | Inr ref1 \<Rightarrow>
             (case (case wr of
                      Some v \<Rightarrow> if ks = [] then set_prop ref1 k v else Inr ref1
                    | None \<Rightarrow> Inr ref1) of
                Inl e \<Rightarrow> Inl e
              | Inr ref2 \<Rightarrow>
                 (case get_prop ref2 k of
                    Inl e \<Rightarrow> Inl e
                  | Inr child \<Rightarrow>
                     (case getset_walk wr child ks of
                        Inl e \<Rightarrow> Inl e
                      | Inr (child', res) \<Rightarrow> Inr (put_back ref2 k child', res))))))"

text \<open>
  \<^verbatim>\<open>_getset( obj, accessor, value )\<close>: \<open>keys_of\<close> is its \<^verbatim>\<open>keys\<close> and
  \<open>root_node\<close> its \<^verbatim>\<open>if ( !obj ) obj = {}\<close>. The result is the returned value and the
  caller's tree after the call: the caller's own object, changed in place, or the
  caller's falsy value, which the function replaces by a fresh object of its own.
\<close>

definition keys_of :: "string \<Rightarrow> key list" where
  "keys_of accessor = map to_key (split_on CHR ''.'' accessor)"

definition root_node :: "jsval \<Rightarrow> jsval" where
  "root_node obj = (if falsy obj then JObj Mapping [] else obj)"

definition getset :: "jsval \<Rightarrow> string \<Rightarrow> jsval option \<Rightarrow> error + (jsval \<times> jsval)" where
  "getset obj accessor wr =
     (if accessor = [] then Inr (case wr of None \<Rightarrow> JUndefined | Some v \<Rightarrow> v, obj)
      else
        (case getset_walk wr (root_node obj) (keys_of accessor) of
           Inl e \<Rightarrow> Inl e
         | Inr (obj', res) \<Rightarrow>
             Inr (case wr of None \<Rightarrow> res | Some v \<Rightarrow> obj',
                  if falsy obj then obj else obj')))"

text \<open>The two forms of the call.\<close>

definition read_path :: "jsval \<Rightarrow> string \<Rightarrow> error + (jsval \<times> jsval)" where
  "read_path obj accessor = getset obj accessor None"

definition write_path :: "jsval \<Rightarrow> string \<Rightarrow> jsval \<Rightarrow> error + (jsval \<times> jsval)" where
  "write_path obj accessor v = getset obj accessor (Some v)"

section \<open>Strings\<close>

text \<open>\<^verbatim>\<open>lc = str => str.toLowerCase()\<close>, on ASCII letters.\<close>

definition lc_char :: "char \<Rightarrow> char" where
  "lc_char c =
     (case map_of (zip ''ABCDEFGHIJKLMNOPQRSTUVWXYZ'' ''abcdefghijklmnopqrstuvwxyz'') c of
        None \<Rightarrow> c
      | Some l \<Rightarrow> l)"

definition lc :: "string \<Rightarrow> string" where
  "lc s = map lc_char s"

text \<open>
  The white space of \<^verbatim>\<open>\s\<close> and of \<^verbatim>\<open>trim\<close> (tab, line feed, vertical tab, form feed,
  carriage return, space) and the line terminators after which a multiline \<^verbatim>\<open>^\<close>
  matches (line feed, carriage return).
\<close>

definition is_space :: "char \<Rightarrow> bool" where
  "is_space c = (c \<in> set [CHR 0x09, CHR 0x0A, CHR 0x0B, CHR 0x0C, CHR 0x0D, CHR '' ''])"

definition is_line_terminator :: "char \<Rightarrow> bool" where
  "is_line_terminator c = (c = CHR 0x0A \<or> c = CHR 0x0D)"

definition trim :: "string \<Rightarrow> string" where
  "trim s = rev (dropWhile is_space (rev (dropWhile is_space s)))"

text \<open>\<^verbatim>\<open>str.startsWith( p )\<close>.\<close>

definition startsWith :: "string \<Rightarrow> string \<Rightarrow> bool" where
  "startsWith s p = (take (length p) s = p)"

text \<open>
  \<^verbatim>\<open>str.replace( '-', sub )\<close> with a string for pattern: the first occurrence only.
  (The substitute is taken to hold no \<^verbatim>\<open>$\<close> pattern.)
\<close>

fun replace_first :: "char \<Rightarrow> string \<Rightarrow> string \<Rightarrow> string" where
  "replace_first p sub [] = []"
| "replace_first p sub (c # cs) = (if c = p then sub @ cs else c # replace_first p sub cs)"

text \<open>
  \<^verbatim>\<open>key.replace( new RegExp( delim, 'g' ), '.' )\<close>, for a delimiter that is one character
  with no meaning of its own in a regular expression: every occurrence.
\<close>

definition replace_all :: "char \<Rightarrow> char \<Rightarrow> string \<Rightarrow> string" where
  "replace_all p r s = map (\<lambda>c. if c = p then r else c) s"

text \<open>\<^verbatim>\<open>str.lastIndexOf( c )\<close>, \<open>None\<close> for \<open>-1\<close>.\<close>

fun lastIndexOf :: "string \<Rightarrow> char \<Rightarrow> nat option" where
  "lastIndexOf [] c = None"
| "lastIndexOf (x # xs) c =
     (case lastIndexOf xs c of
        Some i \<Rightarrow> Some (Suc i)
      | None \<Rightarrow> if x = c then Some 0 else None)"

section \<open>Node's path module\<close>

text \<open>
  \<^verbatim>\<open>path.dirname\<close> and \<^verbatim>\<open>path.join\<close> belong to Node, not to the repository. They are
  modelled after Node's POSIX implementation. \<^verbatim>\<open>dirname\<close> scans the path from its end
  down to index 1: it skips the trailing slashes, then the last segment, and cuts the
  path at the slash it meets next.
\<close>

definition is_slash :: "char \<Rightarrow> bool" where
  "is_slash c = (c = CHR ''/'')"

definition dirname :: "string \<Rightarrow> string" where
  "dirname p =
     (if p = [] then ''.''
      else
        (let hasRoot = is_slash (hd p);
             r = dropWhile (\<lambda>c. \<not> is_slash c) (dropWhile is_slash (rev (tl p)))
         in if r = [] then (if hasRoot then ''/'' else ''.'')
            else if hasRoot \<and> length r = 1 then ''//''
            else take (length r) p))"

text \<open>
  \<^verbatim>\<open>path.normalize\<close>: empty segments and \<^verbatim>\<open>.\<close> are dropped, \<^verbatim>\<open>..\<close> removes the segment
  before it (and stays in a relative path when there is none to remove); a trailing
  slash is kept.
\<close>

fun normalize_segments :: "bool \<Rightarrow> string list \<Rightarrow> string list \<Rightarrow> string list" where
  "normalize_segments allowAbove acc [] = rev acc"
| "normalize_segments allowAbove acc (s # ss) =
     (if s = [] \<or> s = ''.'' then normalize_segments allowAbove acc ss
      else if s = ''..'' then
        (case acc of
           d # ds \<Rightarrow>
             if d = ''..'' then normalize_segments allowAbove (s # acc) ss
             else normalize_segments allowAbove ds ss
         | [] \<Rightarrow> normalize_segments allowAbove (if allowAbove then [s] else []) ss)
      else normalize_segments allowAbove (s # acc) ss)"

fun join_with :: "string \<Rightarrow> string list \<Rightarrow> string" where
  "join_with sep [] = []"
| "join_with sep [s] = s"
| "join_with sep (s # ss) = s @ sep @ join_with sep ss"

definition normalize :: "string \<Rightarrow> string" where
  "normalize p =
     (if p = [] then ''.''
      else
        (let isAbsolute = is_slash (hd p);
             trailing = is_slash (last p);
             q = join_with ''/'' (normalize_segments (\<not> isAbsolute) [] (split_on CHR ''/'' p))
         in if q = [] then (if isAbsolute then ''/'' else if trailing then ''./'' else ''.'')
            else (if isAbsolute then ''/'' else []) @ q @ (if trailing then ''/'' else [])))"

text \<open>\<^verbatim>\<open>path.join( ...parts )\<close>: the non-empty parts joined by a slash, normalized.\<close>

definition path_join :: "string list \<Rightarrow> string" where
  "path_join parts =
     (let ps = filter (\<lambda>p. p \<noteq> []) parts
      in if ps = [] then ''.'' else normalize (join_with ''/'' ps))"


text \<open>
  Every path is its own parent, or has a parent that is, or has a shorter parent: the
  climb from a directory to its ancestors ends.
\<close>

lemma dirname_cases:
  "dirname p = p \<or> dirname (dirname p) = dirname p \<or> dirname p = ''//'' \<and> p \<noteq> ''//''
   \<or> length (dirname p) < length p \<and> p \<noteq> ''//''"
proof (cases "p = []")
  case True
  then show ?thesis by (simp add: dirname_def is_slash_def)
next
  case False
  define r where "r = dropWhile (\<lambda>c. \<not> is_slash c) (dropWhile is_slash (rev (tl p)))"
  have "length r \<le> length (rev (tl p))"
    unfolding r_def by (meson length_dropWhile_le le_trans)
  with False have len: "length r < length p" by (cases p) auto
  have fx: "dirname ''/'' = ''/''" "dirname ''.'' = ''.''" "dirname ''//'' = ''/''"
    by (simp_all add: dirname_def is_slash_def)
  show ?thesis
  proof (cases "r = []")
    case True
    with False have "dirname p = ''/'' \<or> dirname p = ''.''"
      by (auto simp: dirname_def Let_def r_def)
    with fx show ?thesis by auto
  next
    case nonempty: False
    show ?thesis
    proof (cases "is_slash (hd p) \<and> length r = 1")
      case True
      with False nonempty have "dirname p = ''//''"
        by (simp add: dirname_def Let_def r_def)
      with fx show ?thesis by auto
    next
      case F: False
      with False nonempty have d: "dirname p = take (length r) p"
        by (auto simp add: dirname_def Let_def r_def)
      with len have "length (dirname p) < length p" by simp
      moreover have "p \<noteq> ''//''" using nonempty by (auto simp: r_def is_slash_def)
      ultimately show ?thesis by simp
    qed
  qed
qed

definition climb :: "string \<Rightarrow> nat" where
  "climb p = (if dirname p = p then 0 else if p = ''//'' then 1 else length p + 2)"

lemma dirname_climb: "dirname p \<noteq> p \<Longrightarrow> climb (dirname p) < climb p"
proof -
  assume ne: "dirname p \<noteq> p"
  have le: "climb q \<le> length q + 2" for q by (simp add: climb_def)
  from dirname_cases[of p] ne consider
      "dirname (dirname p) = dirname p"
    | "dirname p = ''//''" "p \<noteq> ''//''"
    | "length (dirname p) < length p" "p \<noteq> ''//''" by blast
  then show ?thesis
  proof cases
    case 1
    then have "climb (dirname p) = 0" by (simp add: climb_def)
    with ne show ?thesis by (simp add: climb_def)
  next
    case 2
    then have "climb (dirname p) \<le> 1" by (simp add: climb_def)
    with ne 2 show ?thesis by (simp add: climb_def)
  next
    case 3
    with le[of "dirname p"] ne show ?thesis by (simp add: climb_def)
  qed
qed

section \<open>The format parser registry\<close>

text \<open>
  The parsers themselves (\<^verbatim>\<open>ini\<close>, \<^verbatim>\<open>json5\<close>, \<^verbatim>\<open>JSON.parse\<close>, \<^verbatim>\<open>yamljs\<close>) are outside
  the repository; the table \<^verbatim>\<open>parsers\<close> names, for an extension that is one of its
  own keys, the format whose parser is used.
\<close>

datatype format = Ini | Json5 | Json | Yaml

definition parsers :: "string \<Rightarrow> format option" where
  "parsers ext =
     map_of [(''ini'', Ini), (''conf'', Ini), (''json5'', Json5), (''json'', Json),
             (''yaml'', Yaml), (''yml'', Yaml)] ext"

text \<open>
  \<^verbatim>\<open>/^[\s\n]*\{/m.test( contents )\<close>. With the flag \<^verbatim>\<open>m\<close> the anchor \<^verbatim>\<open>^\<close> matches at
  the start of the text and after every line terminator, so the test holds when, from
  one of these places on, white space is followed by an opening brace.
\<close>

definition brace_first :: "string \<Rightarrow> bool" where
  "brace_first s = (case dropWhile is_space s of [] \<Rightarrow> False | c # cs \<Rightarrow> c = CHR ''{'')"

fun line_starts :: "string \<Rightarrow> string list" where
  "line_starts [] = []"
| "line_starts (c # cs) = (if is_line_terminator c then cs # line_starts cs else line_starts cs)"

definition rx_json :: "string \<Rightarrow> bool" where
  "rx_json contents = list_ex brace_first (contents # line_starts contents)"

text \<open>
  The choice of the parser, as \<^verbatim>\<open>parse\<close> and \<^verbatim>\<open>add_config_file\<close> both make it:
  \<^verbatim>\<open>extIndex = filename.lastIndexOf( '.' ); if ( extIndex > 0 ) _parser = parsers[ lc( filename.substr( extIndex + 1 ) ) ];\<close>
  \<^verbatim>\<open>if ( !_parser ) _parser = /^[\s\n]*\{/m.test( fileConfig ) ? parsers.json : parsers.ini;\<close>
\<close>

definition by_extension :: "string \<Rightarrow> format option" where
  "by_extension filename =
     (case lastIndexOf filename CHR ''.'' of
        None \<Rightarrow> None
      | Some extIndex \<Rightarrow>
          if extIndex > 0 then parsers (lc (drop (extIndex + 1) filename)) else None)"

definition select_parser :: "string \<Rightarrow> string \<Rightarrow> format" where
  "select_parser filename contents =
     (case by_extension filename of
        Some p \<Rightarrow> p
      | None \<Rightarrow> if rx_json contents then Json else Ini)"

section \<open>The world outside\<close>

text \<open>
  What the engine reads from its process: the platform, the home and the working
  directory, the file system (a path is a directory or a file with its text; a path
  that is not listed does not exist), the parsers (\<open>None\<close> when the parser throws), the
  environment in the order of \<^verbatim>\<open>Object.keys( process.env )\<close>, and the command line as
  \<^verbatim>\<open>minimist\<close> has parsed it.
\<close>

datatype node = Directory | File string

record world =
  platform :: string
  homedir :: string
  cwd :: string
  files :: "(string \<times> node) list"
  parse_as :: "format \<Rightarrow> string \<Rightarrow> jsval option"
  environment :: "(string \<times> jsval) list"
  cli :: jsval

text \<open>\<^verbatim>\<open>exists = fn => { try { fs.statSync( fn ); return true; } catch ( err ) { return false; } }\<close>\<close>

definition exists_file :: "world \<Rightarrow> string \<Rightarrow> bool" where
  "exists_file w fn = (map_of (files w) fn \<noteq> None)"

text \<open>
  \<^verbatim>\<open>get_file( ...parts )\<close>: the text of the file at the joined path, \<^verbatim>\<open>null\<close> when the
  read throws (no such file, or a directory).
\<close>

definition get_file :: "world \<Rightarrow> string list \<Rightarrow> string option" where
  "get_file w parts =
     (case map_of (files w) (path_join (filter (\<lambda>p. p \<noteq> []) parts)) of
        Some (File text) \<Rightarrow> Some text
      | _ \<Rightarrow> None)"

text \<open>
  \<^verbatim>\<open>parse( filename, contents )\<close>: the parser chosen is applied, and \<^verbatim>\<open>null\<close> is the result
  when it throws.
\<close>

definition parse :: "world \<Rightarrow> string \<Rightarrow> string \<Rightarrow> jsval" where
  "parse w filename contents =
     (case parse_as w (select_parser filename contents) contents of
        None \<Rightarrow> JNull
      | Some tree \<Rightarrow> tree)"

section \<open>The engine\<close>

text \<open>
  The fields of a \<^verbatim>\<open>Configuration\<close>. The options are \<^verbatim>\<open>defaultOptions\<close> overridden by
  \<^verbatim>\<open>defaults._config\<close>; the delimiter is one character. \<open>merged\<close> is \<^verbatim>\<open>null\<close> or the
  cached result.
\<close>

record options =
  delimiter :: char
  hyphenSubstitute :: string
  extensions :: "string list"

definition defaultOptions :: options where
  "defaultOptions =
     \<lparr> delimiter = CHR ''_'', hyphenSubstitute = ''_'',
       extensions = ['''', ''.json'', ''.json5'', ''.ini'', ''.yml'', ''.yaml'', ''conf''] \<rparr>"

record config =
  opts :: options
  appName :: string
  keyAppName :: string
  env :: jsval
  argv :: jsval
  defaults :: jsval
  overrides :: jsval
  configList :: "jsval list"
  configFiles :: "string list"
  cookedConfigFiles :: "string list"
  diagnostics :: "string list"
  merged :: jsval

subsection \<open>The merge\<close>

text \<open>
  \<^verbatim>\<open>Object.assign( target, ...sources )\<close> copies, source after source, every own
  enumerable property of the source into the target: those of an object or an array,
  the characters of a string; \<^verbatim>\<open>null\<close>, \<^verbatim>\<open>undefined\<close>, numbers and booleans have none.
\<close>

fun own_props :: "jsval \<Rightarrow> (string \<times> jsval) list" where
  "own_props (JObj kd ps) = ps"
| "own_props (JStr s) = map (\<lambda>i. (dec i, JStr [s ! i])) [0..<length s]"
| "own_props v = []"

definition assign_from :: "jsval \<Rightarrow> (string \<times> jsval) list \<Rightarrow> (string \<times> jsval) list" where
  "assign_from src target = fold (\<lambda>(name, v) t. AList.update name v t) (own_props src) target"

definition object_assign :: "(string \<times> jsval) list \<Rightarrow> jsval list \<Rightarrow> jsval" where
  "object_assign target sources = JObj Mapping (fold assign_from sources target)"

text \<open>
  \<^verbatim>\<open>merge() { return Object.assign( {}, this.defaults, ...this.configList, this.env, this.argv, this.overrides ); }\<close>
\<close>

definition sources :: "config \<Rightarrow> jsval list" where
  "sources c = [defaults c] @ configList c @ [env c, argv c, overrides c]"

definition merge :: "config \<Rightarrow> jsval" where
  "merge c = object_assign [] (sources c)"

text \<open>\<^verbatim>\<open>get() { return this.merged || ( this.merged = this.merge() ); }\<close>\<close>

definition get :: "config \<Rightarrow> jsval \<times> config" where
  "get c = (if falsy (merged c) then (merge c, c\<lparr>merged := merge c\<rparr>) else (merged c, c))"

text \<open>
  \<^verbatim>\<open>set( key, value ) { this.merged = null; _getset( this.overrides, key, value ); }\<close>
  An error of \<^verbatim>\<open>_getset\<close> leaves \<^verbatim>\<open>set\<close> as the error.
\<close>

definition set_value :: "config \<Rightarrow> string \<Rightarrow> jsval \<Rightarrow> error + config" where
  "set_value c key v =
     (case getset (overrides c) key (Some v) of
        Inl e \<Rightarrow> Inl e
      | Inr (r, ov) \<Rightarrow> Inr (c\<lparr>merged := JNull, overrides := ov\<rparr>))"

subsection \<open>The environment\<close>

text \<open>
  The value coercion of \<^verbatim>\<open>parse_env\<close>:
  \<^verbatim>\<open>rxNumber.test( value ) ? +value : value === 'true' ? true : value === 'false' ? false : value\<close>
\<close>

fun coerce :: "jsval \<Rightarrow> jsval" where
  "coerce (JStr s) =
     (if rxNumber s then JNum (int (to_number s))
      else if s = ''true'' then JBool True
      else if s = ''false'' then JBool False
      else JStr s)"
| "coerce v = v"

text \<open>
  The end of the reducer of \<^verbatim>\<open>parse_env\<close>: the delimiters of the key become dots, the
  value is coerced and written into \<^verbatim>\<open>envs\<close>.
\<close>

definition env_put :: "char \<Rightarrow> jsval \<Rightarrow> string \<Rightarrow> jsval \<Rightarrow> error + jsval" where
  "env_put delim envs key v =
     (case getset envs (if delim \<noteq> CHR ''.'' then replace_all delim CHR ''.'' key else key)
             (Some (coerce v)) of
        Inl e \<Rightarrow> Inl e
      | Inr (r, envs') \<Rightarrow> Inr envs')"

text \<open>
  The reducer, for one variable. A name equal to the key of the application:
  \<^verbatim>\<open>[ key, value ] = value.split( '=' )\<close>, the first two pieces of the value split at every
  \<^verbatim>\<open>=\<close> (the second is \<^verbatim>\<open>undefined\<close> when there is none). A name that starts with that key
  and the delimiter: \<^verbatim>\<open>key = key.substr( keyname.length + 1 )\<close>.
\<close>

definition env_step :: "string \<Rightarrow> char \<Rightarrow> jsval \<Rightarrow> string \<times> jsval \<Rightarrow> error + jsval" where
  "env_step keyname delim envs kv =
     (case snd kv of
        JStr raw \<Rightarrow>
          (let key = lc (fst kv); v = trim raw in
           if key = keyname then
             (case split_on CHR ''='' v of
                [] \<Rightarrow> Inr envs
              | k # rest \<Rightarrow>
                  env_put delim envs k (case rest of [] \<Rightarrow> JUndefined | x # xs \<Rightarrow> JStr x))
           else if startsWith key (keyname @ [delim]) then
             env_put delim envs (drop (length keyname + 1) key) (JStr v)
           else Inr envs)
      | other \<Rightarrow> Inr envs)"

fun env_reduce :: "string \<Rightarrow> char \<Rightarrow> jsval \<Rightarrow> (string \<times> jsval) list \<Rightarrow> error + jsval" where
  "env_reduce keyname delim envs [] = Inr envs"
| "env_reduce keyname delim envs (kv # rest) =
     (case env_step keyname delim envs kv of
        Inl e \<Rightarrow> Inl e
      | Inr envs' \<Rightarrow> env_reduce keyname delim envs' rest)"

text \<open>\<^verbatim>\<open>parse_env( obj, delim )\<close>, with \<^verbatim>\<open>this.keyAppName\<close> as first argument.\<close>

definition parse_env :: "string \<Rightarrow> (string \<times> jsval) list \<Rightarrow> char \<Rightarrow> error + jsval" where
  "parse_env keyname obj delim = env_reduce keyname delim (JObj Mapping []) obj"

subsection \<open>The file locator\<close>

text \<open>
  \<^verbatim>\<open>_find( start, rel )\<close>: the path probed is recorded, an existing file that is not in
  \<^verbatim>\<open>configFiles\<close> is the result, otherwise the search goes on from the parent of
  \<open>start\<close>, and ends with \<^verbatim>\<open>null\<close> at the directory that is its own parent. The result is
  the value returned and the engine with the probes recorded.
\<close>

function find_from :: "world \<Rightarrow> config \<Rightarrow> string \<Rightarrow> string \<Rightarrow> string option \<times> config" where
  "find_from w c start rel =
     (let file = path_join [start, rel];
          c1 = c\<lparr>diagnostics := diagnostics c @ [file]\<rparr>
      in if exists_file w file \<and> file \<notin> set (configFiles c) then (Some file, c1)
         else if dirname start \<noteq> start then find_from w c1 (dirname start) rel
         else (None, c1))"
  by pat_completeness auto
termination
  by (relation "measure (\<lambda>(w, c, start, rel). climb start)") (auto simp: dirname_climb)

text \<open>\<^verbatim>\<open>find( file ) { return this._find( process.cwd(), file ); }\<close>\<close>

definition find_file :: "world \<Rightarrow> config \<Rightarrow> string \<Rightarrow> string option \<times> config" where
  "find_file w c file = find_from w c (cwd w) file"

subsection \<open>The source loader\<close>

text \<open>
  The loop of \<^verbatim>\<open>add_config_file( file, findIt )\<close> over \<^verbatim>\<open>filesToCheck\<close>. A candidate is
  passed over (\<^verbatim>\<open>continue\<close>) when it is not found, does not exist, is in
  \<^verbatim>\<open>configFiles\<close>, cannot be read, is empty, or does not parse to a truthy value. The
  first candidate that parses is pushed, with \<^verbatim>\<open>file\<close> into \<^verbatim>\<open>configFiles\<close> and the
  candidate into \<^verbatim>\<open>cookedConfigFiles\<close>, and ends the loop.
\<close>

fun try_files :: "world \<Rightarrow> bool \<Rightarrow> string \<Rightarrow> config \<Rightarrow> string list \<Rightarrow> config" where
  "try_files w findIt file c [] = c"
| "try_files w findIt file c (candidate # rest) =
     (let (found, c1) =
            (if findIt then find_file w c candidate
             else (Some candidate, c\<lparr>diagnostics := diagnostics c @ [candidate]\<rparr>))
      in case found of
           None \<Rightarrow> try_files w findIt file c1 rest
         | Some filename \<Rightarrow>
             if filename = [] \<or> \<not> exists_file w filename \<or> filename \<in> set (configFiles c1)
             then try_files w findIt file c1 rest
             else
               (case get_file w [filename] of
                  None \<Rightarrow> try_files w findIt file c1 rest
                | Some fileConfig \<Rightarrow>
                    if fileConfig = [] then try_files w findIt file c1 rest
                    else
                      (case parse_as w (select_parser filename fileConfig) fileConfig of
                         None \<Rightarrow> try_files w findIt file c1 rest
                       | Some parsed \<Rightarrow>
                           if falsy parsed then try_files w findIt file c1 rest
                           else c1\<lparr>configList := configList c1 @ [parsed],
                                   configFiles := configFiles c1 @ [file],
                                   cookedConfigFiles := cookedConfigFiles c1 @ [filename]\<rparr>)))"

definition add_config_file :: "world \<Rightarrow> config \<Rightarrow> string \<Rightarrow> bool \<Rightarrow> config" where
  "add_config_file w c file findIt =
     (if file \<in> set (configFiles c) then c
      else try_files w findIt file c (map (\<lambda>x. file @ x) (extensions (opts c))))"

text \<open>
  \<^verbatim>\<open>join = args => path.join( ...args )\<close> has one parameter: of the call
  \<^verbatim>\<open>join( etc, ...parts )\<close> it sees the directory only, and spreads that string into its
  characters. \<^verbatim>\<open>join( '/etc', 'app', 'config' )\<close> is \<^verbatim>\<open>path.join( '/', 'e', 't', 'c' )\<close>.
\<close>

definition join_args :: "string \<Rightarrow> string" where
  "join_args args = path_join (map (\<lambda>ch. [ch]) args)"

text \<open>
  \<^verbatim>\<open>add_files()\<close>: one direct probe for each shape under \<^verbatim>\<open>/etc\<close>, the home and the
  working directory, each with the path that \<^verbatim>\<open>join\<close> makes of the directory, then the
  three upward searches.
\<close>

definition add_files :: "world \<Rightarrow> config \<Rightarrow> config" where
  "add_files w c =
     (let name = appName c;
          dotName = ''.'' @ name;
          dotRc = ''.'' @ name @ ''rc'';
          all = [[''.config'', name, ''config''], [''.config'', name], [dotName, ''config''],
                 [dotName], [dotRc], [name]];
          inEtc = [[name, ''config''], [name @ ''rc''], [name]];
          add_cfg = (\<lambda>fn c. add_config_file w c fn False);
          search = (\<lambda>fn c. add_config_file w c fn True);
          c1 = (if platform w \<noteq> ''win32''
                then fold add_cfg (map (\<lambda>parts. join_args ''/etc'') inEtc) c
                else c);
          c2 = (if homedir w \<noteq> []
                then fold add_cfg (map (\<lambda>parts. join_args (homedir w)) all
                                   @ map (\<lambda>parts. join_args (cwd w)) all) c1
                else c1)
      in fold search [dotRc, dotName, name] c2)"

subsection \<open>The constructor\<close>

text \<open>\<^verbatim>\<open>this.keyAppName = lc( appName.replace( '-', this.opts.hyphenSubstitute ) )\<close>\<close>

definition key_app_name :: "string \<Rightarrow> options \<Rightarrow> string" where
  "key_app_name name os = lc (replace_first CHR ''-'' (hyphenSubstitute os) name)"

text \<open>
  \<^verbatim>\<open>new Configuration( appName, defaults )\<close>, for an application name that is given and
  defaults that are an object, with the options already read from
  \<^verbatim>\<open>defaults._config\<close>. \<^verbatim>\<open>this.argv = cli[ this.keyAppName ] || {}\<close>.
\<close>

definition new_config :: "world \<Rightarrow> options \<Rightarrow> string \<Rightarrow> jsval \<Rightarrow> error + config" where
  "new_config w os name dflt =
     (case parse_env (key_app_name name os) (environment w) (delimiter os) of
        Inl e \<Rightarrow> Inl e
      | Inr envs \<Rightarrow>
          (let arg = lookup (own_props (cli w)) (key_app_name name os);
               c = \<lparr> opts = os, appName = name, keyAppName = key_app_name name os,
                     env = envs, argv = (if falsy arg then JObj Mapping [] else arg),
                     defaults = dflt, overrides = JObj Mapping [],
                     configList = [], configFiles = [], cookedConfigFiles = [],
                     diagnostics = [], merged = JNull \<rparr>;
               c' = add_files w c
           in Inr (c'\<lparr>merged := merge c'\<rparr>)))"

section \<open>Shapes of a tree along a path\<close>

text \<open>
  Three ways a tree can stand to a list of keys, used to state the properties of the
  accessor. Every node that the walk reaches while keys remain is the object or array
  whose property is read next.
  \<^item> \<open>passable t ks\<close>: every node the walk has to go through is an object or an
    array, up to the first missing property or to the end of the path;
  \<^item> \<open>present t ks r\<close>: every segment of the path is there, and the path ends at \<open>r\<close>;
  \<^item> \<open>absent_on_path t ks\<close>: the walk goes through objects and arrays and reaches
    one that lacks the next segment (or holds \<^verbatim>\<open>undefined\<close> for it).
\<close>

fun passable :: "jsval \<Rightarrow> key list \<Rightarrow> bool" where
  "passable t [] = True"
| "passable (JObj kd ps) (k # ks) =
     (lookup ps (prop_name k) = JUndefined \<or> passable (lookup ps (prop_name k)) ks)"
| "passable t (k # ks) = False"

fun present :: "jsval \<Rightarrow> key list \<Rightarrow> jsval \<Rightarrow> bool" where
  "present t [] r = (t = r)"
| "present (JObj kd ps) (k # ks) r =
     (lookup ps (prop_name k) \<noteq> JUndefined \<and> present (lookup ps (prop_name k)) ks r)"
| "present t (k # ks) r = False"




section \<open>The precedence of the sources, as the specification words it\<close>

text \<open>
  The sources of the merge in the order in which \<^verbatim>\<open>merge\<close> hands them to
  \<^verbatim>\<open>Object.assign\<close>, and the property that a JavaScript object has and a list of pairs
  can lack: no source lists a property name twice.
\<close>

definition well_formed :: "jsval \<Rightarrow> bool" where
  "well_formed src = distinct (map fst (own_props src))"

text \<open>
  The fold of the specification: the running result is a mapping from top-level keys to
  values, and for each top-level key present in a later source the entire value of
  that source replaces what the running result held.
\<close>

definition replaced_by :: "(string \<rightharpoonup> jsval) \<Rightarrow> jsval \<Rightarrow> (string \<rightharpoonup> jsval)" where
  "replaced_by running src =
     (\<lambda>name. case map_of (own_props src) name of Some v \<Rightarrow> Some v | None \<Rightarrow> running name)"

definition precedence_fold :: "config \<Rightarrow> (string \<rightharpoonup> jsval)" where
  "precedence_fold c =
     replaced_by (replaced_by (replaced_by
       (foldl replaced_by (replaced_by Map.empty (defaults c)) (configList c))
       (env c)) (argv c)) (overrides c)"

text \<open>
  The cache of an engine is fresh when it is empty (\<^verbatim>\<open>null\<close>) or holds the merge of the
  present sources, as it does after the constructor, after \<^verbatim>\<open>set\<close> and after \<^verbatim>\<open>get\<close>.
\<close>

definition cache_fresh :: "config \<Rightarrow> bool" where
  "cache_fresh c = (merged c = JNull \<or> merged c = merge c)"

section \<open>The upward search, as the specification words it\<close>

text \<open>
  The directories from \<open>start\<close> up to the one that is its own parent, the paths probed
  in them, what counts as found (the file exists and is not in \<^verbatim>\<open>configFiles\<close>), and
  the probes made up to the first one found.
\<close>

function ancestors :: "string \<Rightarrow> string list" where
  "ancestors d = (if dirname d \<noteq> d then d # ancestors (dirname d) else [d])"
  by pat_completeness auto
termination
  by (relation "measure climb") (auto simp: dirname_climb)

definition probes :: "string \<Rightarrow> string \<Rightarrow> string list" where
  "probes start rel = map (\<lambda>d. path_join [d, rel]) (ancestors start)"

definition loadable :: "world \<Rightarrow> config \<Rightarrow> string \<Rightarrow> bool" where
  "loadable w c file = (exists_file w file \<and> file \<notin> set (configFiles c))"

fun probed_until :: "(string \<Rightarrow> bool) \<Rightarrow> string list \<Rightarrow> string list" where
  "probed_until h [] = []"
| "probed_until h (f # fs) = f # (if h f then [] else probed_until h fs)"

section \<open>The content sniff, in terms of lines\<close>

text \<open>The part of a text after its last line terminator: the line the text ends in.\<close>

definition last_line :: "string \<Rightarrow> string" where
  "last_line u = rev (takeWhile (\<lambda>c. \<not> is_line_terminator c) (rev u))"

text \<open>
  Some opening brace of the contents has nothing but white space before it on its
  line.
\<close>

definition brace_starts_a_line :: "string \<Rightarrow> bool" where
  "brace_starts_a_line contents =
     (\<exists>u v. contents = u @ CHR ''{'' # v \<and> list_all is_space (last_line u))"

section \<open>Examples\<close>

text \<open>The engines and worlds at which the theorems below are instantiated.\<close>

definition precedence_example :: config where
  "precedence_example =
     \<lparr> opts = defaultOptions, appName = ''app'', keyAppName = ''app'',
       env = JObj Mapping [(''x'', JNum 3)], argv = JObj Mapping [(''x'', JNum 4)],
       defaults = JObj Mapping [(''x'', JNum 1)], overrides = JObj Mapping [(''x'', JNum 5)],
       configList = [JObj Mapping [(''x'', JNum 2)]], configFiles = [''/etc/app''],
       cookedConfigFiles = [''/etc/app.json''], diagnostics = [], merged = JNull \<rparr>"

definition shallow_example :: config where
  "shallow_example =
     \<lparr> opts = defaultOptions, appName = ''app'', keyAppName = ''app'',
       env = JObj Mapping [(''a'', JObj Mapping [(''q'', JNum 2)])], argv = JObj Mapping [],
       defaults = JObj Mapping [(''a'', JObj Mapping [(''p'', JNum 1)]), (''keep'', JNum 7)],
       overrides = JObj Mapping [],
       configList = [], configFiles = [], cookedConfigFiles = [], diagnostics = [],
       merged = JNull \<rparr>"

definition search_world :: world where
  "search_world =
     \<lparr> platform = ''linux'', homedir = ''/home/u'', cwd = ''/srv/www/site'',
       files = [(''/srv/.apprc'', File ''{}''), (''/srv'', Directory)],
       parse_as = (\<lambda>f s. None), environment = [], cli = JObj Mapping [] \<rparr>"

definition blank_config :: config where
  "blank_config =
     \<lparr> opts = defaultOptions, appName = ''app'', keyAppName = ''app'',
       env = JObj Mapping [], argv = JObj Mapping [], defaults = JObj Mapping [],
       overrides = JObj Mapping [], configList = [], configFiles = [],
       cookedConfigFiles = [], diagnostics = [], merged = JNull \<rparr>"

definition twice_world :: world where
  "twice_world =
     \<lparr> platform = ''linux'', homedir = ''/home/u'', cwd = ''/a'',
       files = [(''/a'', Directory), (''/a.json'', File ''{}'')],
       parse_as = (\<lambda>f s. if f = Json \<and> s = ''{}'' then Some (JObj Mapping []) else None),
       environment = [], cli = JObj Mapping [] \<rparr>"

definition twice_config :: config where
  "twice_config =
     \<lparr> opts = defaultOptions, appName = ''a'', keyAppName = ''a'',
       env = JObj Mapping [], argv = JObj Mapping [], defaults = JObj Mapping [],
       overrides = JObj Mapping [], configList = [], configFiles = [],
       cookedConfigFiles = [], diagnostics = [], merged = JNull \<rparr>"

section \<open>Properties of the path accessor\<close>

lemma split_on_not_Nil: "split_on d s \<noteq> []"
  by (induction s) (auto split: list.splits)

lemma keys_of_not_Nil: "keys_of a \<noteq> []"
  by (simp add: keys_of_def split_on_not_Nil)

lemma lookup_update_same: "lookup (AList.update n v ps) n = v"
  by (simp add: lookup_def update_conv')

lemma lookup_update_other: "m \<noteq> n \<Longrightarrow> lookup (AList.update n v ps) m = lookup ps m"
  by (simp add: lookup_def update_conv')

lemma update_lookup_id: "lookup ps n \<noteq> JUndefined \<Longrightarrow> AList.update n (lookup ps n) ps = ps"
  by (auto simp: lookup_def update_triv split: option.splits)

lemma present_not_undefined: "present t ks r \<Longrightarrow> ks \<noteq> [] \<Longrightarrow> t \<noteq> JUndefined"
  by (cases ks; cases t) auto

lemma present_is_object: "present t ks r \<Longrightarrow> ks \<noteq> [] \<Longrightarrow> \<not> falsy t"
  by (cases ks; cases t) auto

lemma passable_fresh: "passable (fresh ks') ks"
  by (cases ks; cases ks' rule: fresh.cases) (auto simp: lookup_def)



subsection \<open>Reading a path that is there changes nothing\<close>

lemma walk_read_present:
  "present t ks r \<Longrightarrow> getset_walk None t ks = Inr (t, r)"
proof (induction ks arbitrary: t)
  case Nil
  then show ?case by simp
next
  case (Cons k ks)
  then obtain kd ps where t: "t = JObj kd ps" by (cases t) auto
  from Cons.prems t have def: "lookup ps (prop_name k) \<noteq> JUndefined"
    and p: "present (lookup ps (prop_name k)) ks r" by auto
  from Cons.IH[OF p] def show ?case
    by (simp add: t update_lookup_id)
qed

subsection \<open>Writing through objects and arrays\<close>

lemma walk_write_present:
  "passable t ks \<Longrightarrow> ks \<noteq> [] \<Longrightarrow> v \<noteq> JUndefined \<Longrightarrow>
   \<exists>t'. getset_walk (Some v) t ks = Inr (t', v) \<and> present t' ks v"
proof (induction ks arbitrary: t)
  case Nil
  then show ?case by simp
next
  case (Cons k ks)
  then obtain kd ps where t: "t = JObj kd ps" by (cases t) auto
  let ?n = "prop_name k"
  show ?case
  proof (cases "ks = []")
    case True
    then show ?thesis using Cons.prems(3)
      by (simp add: t lookup_update_same)
  next
    case False
    define child where "child = (if lookup ps ?n = JUndefined then fresh ks else lookup ps ?n)"
    have "passable child ks"
      using Cons.prems(1) by (auto simp: child_def t passable_fresh)
    from Cons.IH[OF this False Cons.prems(3)]
    obtain c' where c: "getset_walk (Some v) child ks = Inr (c', v)" "present c' ks v"
      by blast
    from c(2) False have "c' \<noteq> JUndefined" by (rule present_not_undefined)
    with c False show ?thesis
      by (cases "lookup ps ?n = JUndefined") (simp_all add: t child_def lookup_update_same)
  qed
qed

lemma walk_write_ok:
  "passable t ks \<Longrightarrow> \<exists>t' r. getset_walk (Some v) t ks = Inr (t', r)"
proof (induction ks arbitrary: t)
  case Nil
  then show ?case by simp
next
  case (Cons k ks)
  then obtain kd ps where t: "t = JObj kd ps" by (cases t) auto
  let ?n = "prop_name k"
  show ?case
  proof (cases "ks = []")
    case True
    then show ?thesis
      by (simp add: t lookup_update_same)
  next
    case False
    define child where "child = (if lookup ps ?n = JUndefined then fresh ks else lookup ps ?n)"
    have "passable child ks"
      using Cons.prems(1) by (auto simp: child_def t passable_fresh)
    from Cons.IH[OF this]
    obtain c' r where "getset_walk (Some v) child ks = Inr (c', r)"
      by blast
    with False show ?thesis
      by (cases "lookup ps ?n = JUndefined") (simp_all add: t child_def lookup_update_same)
  qed
qed

lemma walk_write_blocked:
  "\<not> passable t ks \<Longrightarrow> getset_walk (Some v) t ks = Inl TypeError"
proof (induction ks arbitrary: t)
  case Nil
  then show ?case by simp
next
  case (Cons k ks)
  show ?case
  proof (cases t)
    case (JObj kd ps)
    with Cons.prems have d: "lookup ps (prop_name k) \<noteq> JUndefined"
      and np: "\<not> passable (lookup ps (prop_name k)) ks" by auto
    from np have "ks \<noteq> []" by (cases ks) auto
    with Cons.IH[OF np] d show ?thesis by (simp add: JObj)
  next
    case (JStr s)
    show ?thesis
    proof (cases k)
      case (KNum i)
      show ?thesis
      proof (cases "i < length s")
        case True
        have "\<not> passable (JStr [s ! i]) ks \<or> ks = []" by (cases ks) auto
        then show ?thesis using Cons.IH[of "JStr [s ! i]"] True
          by (auto simp: JStr KNum)
      next
        case False
        then show ?thesis by (simp add: JStr KNum)
      qed
    next
      case (KStr n)
      then show ?thesis by (simp add: JStr)
    qed
  qed (use error.exhaust in auto)
qed

subsection \<open>Reading a path that is not there\<close>






subsection \<open>Errors of a write, and the round trip\<close>

text \<open>
  C5, as the code has it. A write \<^verbatim>\<open>_getset( obj, accessor, value )\<close> with a non-empty
  accessor raises no error when every node it has to go through is an object or an
  array: the kind of the container and the shape of the key play no part, so an index
  is written into a mapping and a property name into an array. It raises a
  \<^verbatim>\<open>TypeError\<close> in every other case, that is when the path has to go on below
  \<^verbatim>\<open>null\<close> or below a number, a boolean or a string.
\<close>

theorem write_raises_only_at_scalar:
  assumes "accessor \<noteq> []"
  shows "(passable (root_node obj) (keys_of accessor) \<longrightarrow>
            (\<exists>t. write_path obj accessor v = Inr (t, if falsy obj then obj else t)))
       \<and> (\<not> passable (root_node obj) (keys_of accessor) \<longrightarrow>
            write_path obj accessor v = Inl TypeError)"
proof (intro conjI impI)
  assume "passable (root_node obj) (keys_of accessor)"
  from walk_write_ok[OF this, of v] obtain t' r
    where "getset_walk (Some v) (root_node obj) (keys_of accessor) = Inr (t', r)" by blast
  with assms show "\<exists>t. write_path obj accessor v = Inr (t, if falsy obj then obj else t)"
    by (simp add: write_path_def getset_def)
next
  assume "\<not> passable (root_node obj) (keys_of accessor)"
  from walk_write_blocked[OF this, of v] assms
  show "write_path obj accessor v = Inl TypeError"
    by (simp add: write_path_def getset_def)
qed

theorem write_raises_only_at_scalar_witness:
  "write_path (JObj Mapping [(''a'', JObj Array [(''0'', JNum 7)]), (''m'', JObj Mapping [])]) ''a.name'' (JStr ''x'')
     = Inr (JObj Mapping [(''a'', JObj Array [(''0'', JNum 7), (''name'', JStr ''x'')]), (''m'', JObj Mapping [])],
            JObj Mapping [(''a'', JObj Array [(''0'', JNum 7), (''name'', JStr ''x'')]), (''m'', JObj Mapping [])])
   \<and> write_path (JObj Mapping [(''a'', JObj Array [(''0'', JNum 7)]), (''m'', JObj Mapping [])]) ''m.0'' (JStr ''x'')
     = Inr (JObj Mapping [(''a'', JObj Array [(''0'', JNum 7)]), (''m'', JObj Mapping [(''0'', JStr ''x'')])],
            JObj Mapping [(''a'', JObj Array [(''0'', JNum 7)]), (''m'', JObj Mapping [(''0'', JStr ''x'')])])
   \<and> write_path (JObj Mapping [(''a'', JObj Array [(''0'', JNum 7)]), (''m'', JObj Mapping [])]) ''a.0.b'' (JStr ''x'')
     = Inl TypeError"
proof -
  let ?t = "JObj Mapping [(''a'', JObj Array [(''0'', JNum 7)]), (''m'', JObj Mapping [])]"
  have k1: "keys_of ''a.name'' = [KStr ''a'', KStr ''name'']" by code_simp
  have k2: "keys_of ''m.0'' = [KStr ''m'', KNum 0]" by code_simp
  have k3: "keys_of ''a.0.b'' = [KStr ''a'', KNum 0, KStr ''b'']" by code_simp
  have p1: "passable (root_node ?t) (keys_of ''a.name'')"
    unfolding k1 by (simp add: root_node_def lookup_def)
  have p2: "passable (root_node ?t) (keys_of ''m.0'')"
    unfolding k2 by (simp add: root_node_def lookup_def digit_char_def)
  have p3: "\<not> passable (root_node ?t) (keys_of ''a.0.b'')"
    unfolding k3 by (simp add: root_node_def lookup_def digit_char_def)
  have e1: "write_path ?t ''a.name'' (JStr ''x'') = Inr (JObj Mapping [(''a'', JObj Array [(''0'', JNum 7), (''name'', JStr ''x'')]), (''m'', JObj Mapping [])],
            JObj Mapping [(''a'', JObj Array [(''0'', JNum 7), (''name'', JStr ''x'')]), (''m'', JObj Mapping [])])"
    by code_simp
  have e2: "write_path ?t ''m.0'' (JStr ''x'')  = Inr (JObj Mapping [(''a'', JObj Array [(''0'', JNum 7)]), (''m'', JObj Mapping [(''0'', JStr ''x'')])],
            JObj Mapping [(''a'', JObj Array [(''0'', JNum 7)]), (''m'', JObj Mapping [(''0'', JStr ''x'')])])"
    by code_simp
  have n: "''a.0.b'' \<noteq> []" by simp
  from write_raises_only_at_scalar[OF n, of ?t "JStr ''x''"] p3
  have "write_path ?t ''a.0.b'' (JStr ''x'') = Inl TypeError" by blast
  with e1 e2 show ?thesis by simp
qed

text \<open>
  C5 as the specification states it (no error where a scalar stands in the place of a
  container) fails: below the number \<open>5\<close> and below \<^verbatim>\<open>null\<close> the write raises.
\<close>

theorem write_never_raises_counterexample:
  "write_path (JObj Mapping [(''a'', JNum 5)]) ''a.b'' (JNum 1) = Inl TypeError
   \<and> write_path (JObj Mapping [(''a'', JNull)]) ''a.b'' (JNum 1) = Inl TypeError"
  by code_simp

text \<open>
  C4, as the code has it. For every tree, every non-empty accessor and every value
  other than \<^verbatim>\<open>undefined\<close>: when every node the path has to go through is an object or
  an array, the write returns a tree, and reading the same accessor from that tree
  returns the value and leaves the tree as it is. The accessor is split at \<^verbatim>\<open>'.'\<close>
  whatever delimiter is configured; an accessor built with another delimiter is one
  segment, and the statement covers it.
\<close>

theorem write_then_read:
  assumes "accessor \<noteq> []" and "v \<noteq> JUndefined"
    and "passable (root_node obj) (keys_of accessor)"
  shows "\<exists>t. write_path obj accessor v = Inr (t, if falsy obj then obj else t)
            \<and> read_path t accessor = Inr (v, t)"
proof -
  from walk_write_present[OF assms(3) keys_of_not_Nil assms(2)]
  obtain t where w: "getset_walk (Some v) (root_node obj) (keys_of accessor) = Inr (t, v)"
    and p: "present t (keys_of accessor) v" by blast
  from p have "\<not> falsy t" by (rule present_is_object[OF _ keys_of_not_Nil])
  with walk_read_present[OF p] assms(1) have "read_path t accessor = Inr (v, t)"
    by (simp add: read_path_def getset_def root_node_def)
  with w assms(1) show ?thesis
    by (simp add: write_path_def getset_def)
qed

theorem write_then_read_witness:
  "write_path (JObj Mapping [(''a'', JObj Mapping [(''p'', JNum 1)])]) ''a.b.c'' (JStr ''v'')
     = Inr (JObj Mapping [(''a'', JObj Mapping [(''p'', JNum 1), (''b'', JObj Mapping [(''c'', JStr ''v'')])])],
            JObj Mapping [(''a'', JObj Mapping [(''p'', JNum 1), (''b'', JObj Mapping [(''c'', JStr ''v'')])])])
   \<and> read_path (JObj Mapping [(''a'', JObj Mapping [(''p'', JNum 1), (''b'', JObj Mapping [(''c'', JStr ''v'')])])]) ''a.b.c''
     = Inr (JStr ''v'', JObj Mapping [(''a'', JObj Mapping [(''p'', JNum 1), (''b'', JObj Mapping [(''c'', JStr ''v'')])])])"
proof -
  let ?t = "JObj Mapping [(''a'', JObj Mapping [(''p'', JNum 1)])]"
  have k: "keys_of ''a.b.c'' = [KStr ''a'', KStr ''b'', KStr ''c'']" by code_simp
  have p: "passable (root_node ?t) (keys_of ''a.b.c'')"
    unfolding k by (simp add: root_node_def lookup_def)
  have n: "''a.b.c'' \<noteq> []" and u: "JStr ''v'' \<noteq> JUndefined" by simp_all
  have e: "write_path ?t ''a.b.c'' (JStr ''v'')
     = Inr (JObj Mapping [(''a'', JObj Mapping [(''p'', JNum 1), (''b'', JObj Mapping [(''c'', JStr ''v'')])])],
            JObj Mapping [(''a'', JObj Mapping [(''p'', JNum 1), (''b'', JObj Mapping [(''c'', JStr ''v'')])])])"
    by code_simp
  from write_then_read[OF n u p] e show ?thesis by auto
qed

text \<open>
  C4 as the specification states it (every tree, every value) fails twice: the write
  raises where the path crosses \<^verbatim>\<open>null\<close>, and after writing \<^verbatim>\<open>undefined\<close> the read returns
  a new empty mapping, which it also puts into the tree.
\<close>

theorem write_then_read_counterexample:
  "write_path (JObj Mapping [(''a'', JNull)]) ''a.b.c'' (JNum 1) = Inl TypeError
   \<and> write_path (JObj Mapping []) ''a.b.c'' JUndefined
       = Inr (JObj Mapping [(''a'', JObj Mapping [(''b'', JObj Mapping [(''c'', JUndefined)])])],
              JObj Mapping [(''a'', JObj Mapping [(''b'', JObj Mapping [(''c'', JUndefined)])])])
   \<and> read_path (JObj Mapping [(''a'', JObj Mapping [(''b'', JObj Mapping [(''c'', JUndefined)])])]) ''a.b.c''
       = Inr (JObj Mapping [],
              JObj Mapping [(''a'', JObj Mapping [(''b'', JObj Mapping [(''c'', JObj Mapping [])])])])"
  by code_simp

section \<open>Properties of the merge\<close>

lemma map_of_fold_update:
  "map_of (fold (\<lambda>(name, v) t. AList.update name v t) ps t) = map_of t ++ map_of (rev ps)"
proof (induction ps arbitrary: t)
  case Nil
  then show ?case by simp
next
  case (Cons p ps)
  obtain n v where p: "p = (n, v)" by (cases p)
  show ?case
    by (simp add: Cons.IH p update_conv' map_add_def fun_eq_iff split: option.splits)
qed

lemma map_of_rev_distinct: "distinct (map fst ps) \<Longrightarrow> map_of (rev ps) = map_of ps"
proof (induction ps)
  case Nil
  then show ?case by simp
next
  case (Cons p ps)
  obtain n v where p: "p = (n, v)" by (cases p)
  from Cons.prems p have "map_of ps n = None"
    by (simp add: map_of_eq_None_iff)
  with Cons show ?case
    by (auto simp: p map_add_def fun_eq_iff split: option.splits)
qed

lemma map_of_assign_from:
  "well_formed src \<Longrightarrow> map_of (assign_from src t) = replaced_by (map_of t) src"
  by (simp add: assign_from_def well_formed_def map_of_fold_update map_of_rev_distinct
      replaced_by_def map_add_def fun_eq_iff)

lemma map_of_fold_assign:
  "\<forall>s \<in> set srcs. well_formed s \<Longrightarrow>
   map_of (fold assign_from srcs t) = foldl replaced_by (map_of t) srcs"
  by (induction srcs arbitrary: t) (simp_all add: map_of_assign_from)

lemma merge_is_precedence_fold:
  assumes "well_formed (defaults c)" "\<forall>s \<in> set (configList c). well_formed s"
    "well_formed (env c)" "well_formed (argv c)" "well_formed (overrides c)"
  shows "map_of (own_props (merge c)) = precedence_fold c"
proof -
  have "\<forall>s \<in> set (sources c). well_formed s"
    using assms by (auto simp: sources_def)
  from map_of_fold_assign[OF this, of "[]"] show ?thesis
    by (simp add: merge_def sources_def object_assign_def precedence_fold_def)
qed

lemma get_returns_merge: "cache_fresh c \<Longrightarrow> fst (get c) = merge c"
  by (auto simp: cache_fresh_def get_def)

text \<open>
  C1. For every engine whose cache is fresh and whose sources are objects, \<^verbatim>\<open>get()\<close>
  returns the tree that the fold of the specification describes: defaults first, then
  each file source in the order of \<^verbatim>\<open>configList\<close>, then the environment, then the
  command line, then the overrides, each replacing the top-level keys it has. So a key
  of the overrides has in the result the value the overrides give it, whatever the
  other sources hold.
\<close>

theorem get_follows_precedence:
  assumes "cache_fresh c"
    and "well_formed (defaults c)" and "\<forall>s \<in> set (configList c). well_formed s"
    and "well_formed (env c)" and "well_formed (argv c)" and "well_formed (overrides c)"
  shows "map_of (own_props (fst (get c))) = precedence_fold c
         \<and> (\<forall>name v. map_of (own_props (overrides c)) name = Some v
               \<longrightarrow> lookup (own_props (fst (get c))) name = v)"
proof -
  have m: "map_of (own_props (fst (get c))) = precedence_fold c"
    using assms by (simp add: get_returns_merge merge_is_precedence_fold)
  have "lookup (own_props (fst (get c))) name = v"
    if "map_of (own_props (overrides c)) name = Some v" for name v
    using that by (simp add: lookup_def m precedence_fold_def replaced_by_def)
  with m show ?thesis by blast
qed

theorem get_follows_precedence_witness:
  "fst (get precedence_example) = JObj Mapping [(''x'', JNum 5)]
   \<and> lookup (own_props (fst (get precedence_example))) ''x'' = JNum 5"
proof -
  have f: "cache_fresh precedence_example"
    by (simp add: cache_fresh_def precedence_example_def)
  have w: "well_formed (defaults precedence_example)"
    "\<forall>s \<in> set (configList precedence_example). well_formed s"
    "well_formed (env precedence_example)" "well_formed (argv precedence_example)"
    "well_formed (overrides precedence_example)"
    by (simp_all add: well_formed_def precedence_example_def)
  have o: "map_of (own_props (overrides precedence_example)) ''x'' = Some (JNum 5)"
    by (simp add: precedence_example_def)
  have g: "fst (get precedence_example) = JObj Mapping [(''x'', JNum 5)]"
    by (simp add: get_def merge_def sources_def object_assign_def assign_from_def precedence_example_def)
  from get_follows_precedence[OF f w] o
  have "lookup (own_props (fst (get precedence_example))) ''x'' = JNum 5" by blast
  with g show ?thesis by simp
qed

lemma foldl_replaced_by_absent:
  "\<forall>s \<in> set ss. map_of (own_props s) name = None \<Longrightarrow> foldl replaced_by m ss name = m name"
  by (induction ss arbitrary: m) (simp_all add: replaced_by_def)

text \<open>
  C2. The merge is shallow. Split the argument list of the merge (defaults, the file
  sources in their order, environment, command line, overrides) at any source: when
  that source sets a top-level key and no source after it does, the merged result
  holds for the key the value of that source, the whole of it and nothing else,
  whatever the sources before it hold for the key.
\<close>

theorem later_source_replaces_whole_value:
  assumes "[defaults c] @ configList c @ [env c, argv c, overrides c] = earlier @ later # after"
    and "\<forall>s \<in> set (earlier @ later # after). well_formed s"
    and "map_of (own_props later) name = Some v"
    and "\<forall>s \<in> set after. map_of (own_props s) name = None"
  shows "lookup (own_props (merge c)) name = v"
proof -
  have split: "sources c = earlier @ later # after"
    using assms(1) by (simp add: sources_def)
  then have "\<forall>s \<in> set (sources c). well_formed s"
    using assms(2) by simp
  from map_of_fold_assign[OF this, of "[]"]
  have "map_of (own_props (merge c)) = foldl replaced_by Map.empty (sources c)"
    by (simp add: merge_def object_assign_def)
  also have "\<dots> = foldl replaced_by (replaced_by (foldl replaced_by Map.empty earlier) later) after"
    by (simp add: split)
  finally have "map_of (own_props (merge c)) name
      = replaced_by (foldl replaced_by Map.empty earlier) later name"
    by (simp add: foldl_replaced_by_absent[OF assms(4)])
  with assms(3) show ?thesis by (simp add: lookup_def replaced_by_def)
qed

theorem later_source_replaces_whole_value_witness:
  "parse_env ''app'' [(''APP_A_Q'', JStr ''2'')] CHR ''_''
     = Inr (JObj Mapping [(''a'', JObj Mapping [(''q'', JNum 2)])])
   \<and> lookup (own_props (merge shallow_example)) ''a'' = JObj Mapping [(''q'', JNum 2)]
   \<and> lookup (own_props (merge shallow_example)) ''keep'' = JNum 7
   \<and> merge shallow_example
       = JObj Mapping [(''a'', JObj Mapping [(''q'', JNum 2)]), (''keep'', JNum 7)]"
proof -
  let ?c = shallow_example
  have e: "parse_env ''app'' [(''APP_A_Q'', JStr ''2'')] CHR ''_''
     = Inr (JObj Mapping [(''a'', JObj Mapping [(''q'', JNum 2)])])"
    by code_simp
  have s1: "[defaults ?c] @ configList ?c @ [env ?c, argv ?c, overrides ?c]
     = [defaults ?c] @ env ?c # [argv ?c, overrides ?c]"
    by (simp add: shallow_example_def)
  have w1: "\<forall>s \<in> set ([defaults ?c] @ env ?c # [argv ?c, overrides ?c]). well_formed s"
    by (simp add: shallow_example_def well_formed_def)
  have l1: "map_of (own_props (env ?c)) ''a'' = Some (JObj Mapping [(''q'', JNum 2)])"
    by (simp add: shallow_example_def)
  have a1: "\<forall>s \<in> set [argv ?c, overrides ?c]. map_of (own_props s) ''a'' = None"
    by (simp add: shallow_example_def)
  have s2: "[defaults ?c] @ configList ?c @ [env ?c, argv ?c, overrides ?c]
     = [] @ defaults ?c # [env ?c, argv ?c, overrides ?c]"
    by (simp add: shallow_example_def)
  have w2: "\<forall>s \<in> set ([] @ defaults ?c # [env ?c, argv ?c, overrides ?c]). well_formed s"
    by (simp add: shallow_example_def well_formed_def)
  have l2: "map_of (own_props (defaults ?c)) ''keep'' = Some (JNum 7)"
    by (simp add: shallow_example_def)
  have a2: "\<forall>s \<in> set [env ?c, argv ?c, overrides ?c]. map_of (own_props s) ''keep'' = None"
    by (simp add: shallow_example_def)
  have m: "merge ?c = JObj Mapping [(''a'', JObj Mapping [(''q'', JNum 2)]), (''keep'', JNum 7)]"
    by (simp add: merge_def sources_def object_assign_def assign_from_def shallow_example_def)
  from later_source_replaces_whole_value[OF s1 w1 l1 a1]
       later_source_replaces_whole_value[OF s2 w2 l2 a2] e m
  show ?thesis by simp
qed

section \<open>Properties of the upward search\<close>

declare find_from.simps [simp del]

declare ancestors.simps [simp del]

lemma ancestors_last: "dirname (last (ancestors d)) = last (ancestors d)"
proof (induction d rule: ancestors.induct)
  case (1 d)
  have ne: "ancestors e \<noteq> []" for e by (subst ancestors.simps) simp
  show ?case
  proof (cases "dirname d \<noteq> d")
    case True
    with 1 ne[of "dirname d"] show ?thesis by (subst (1 2) ancestors.simps) simp
  next
    case False
    then show ?thesis by (subst (1 2) ancestors.simps) simp
  qed
qed

lemma probes_unfold:
  "probes start rel =
     path_join [start, rel] # (if dirname start \<noteq> start then probes (dirname start) rel else [])"
  unfolding probes_def by (subst ancestors.simps) simp

lemma loadable_diagnostics [simp]:
  "loadable w (c\<lparr>diagnostics := ds\<rparr>) = loadable w c"
  by (simp add: loadable_def fun_eq_iff)

lemma find_from_step:
  "find_from w c start rel =
     (if loadable w c (path_join [start, rel])
      then (Some (path_join [start, rel]),
            c\<lparr>diagnostics := diagnostics c @ [path_join [start, rel]]\<rparr>)
      else if dirname start \<noteq> start
        then find_from w (c\<lparr>diagnostics := diagnostics c @ [path_join [start, rel]]\<rparr>)
               (dirname start) rel
        else (None, c\<lparr>diagnostics := diagnostics c @ [path_join [start, rel]]\<rparr>))"
  by (subst find_from.simps) (simp add: Let_def loadable_def)

lemma find_from_probes:
  "find_from w c start rel =
     (List.find (loadable w c) (probes start rel),
      c\<lparr>diagnostics := diagnostics c @ probed_until (loadable w c) (probes start rel)\<rparr>)"
proof (induction w c start rel rule: find_from.induct)
  case (1 w c start rel)
  let ?file = "path_join [start, rel]"
  let ?c1 = "c\<lparr>diagnostics := diagnostics c @ [?file]\<rparr>"
  show ?case
  proof (cases "loadable w c ?file")
    case True
    then show ?thesis
      by (simp add: find_from_step[of w c start rel] probes_unfold[of start rel])
  next
    case miss: False
    show ?thesis
    proof (cases "dirname start \<noteq> start")
      case True
      from miss have "\<not> (exists_file w ?file \<and> ?file \<notin> set (configFiles c))"
        by (simp add: loadable_def)
      from "1.IH"[OF refl refl this True]
      have "find_from w ?c1 (dirname start) rel =
         (List.find (loadable w c) (probes (dirname start) rel),
          c\<lparr>diagnostics := diagnostics c @ ?file
               # probed_until (loadable w c) (probes (dirname start) rel)\<rparr>)"
        by simp
      with miss True show ?thesis
        by (simp add: find_from_step[of w c start rel] probes_unfold[of start rel])
    next
      case False
      with miss show ?thesis
        by (simp add: find_from_step[of w c start rel] probes_unfold[of start rel])
    qed
  qed
qed

text \<open>
  C6. For every world, engine, starting directory and file name the upward search
  returns. It probes the file in the starting directory, then in each parent in turn,
  up to the directory that is its own parent; it records every probe it makes; its
  result is the first probe that exists and is not yet loaded, and \<^verbatim>\<open>null\<close> when there
  is none, that is when the root has been probed without a match.
\<close>

theorem upward_search_ends_at_root:
  "find_from w c start rel =
     (List.find (loadable w c) (probes start rel),
      c\<lparr>diagnostics := diagnostics c @ probed_until (loadable w c) (probes start rel)\<rparr>)
   \<and> dirname (last (ancestors start)) = last (ancestors start)
   \<and> find_file w c rel = find_from w c (cwd w) rel
   \<and> ((\<forall>d \<in> set (ancestors start). \<not> loadable w c (path_join [d, rel]))
        \<longrightarrow> fst (find_from w c start rel) = None)"
proof -
  have "fst (find_from w c start rel) = None"
    if "\<forall>d \<in> set (ancestors start). \<not> loadable w c (path_join [d, rel])"
    using that by (simp add: find_from_probes probes_def find_None_iff)
  then show ?thesis
    by (simp add: find_from_probes[symmetric] ancestors_last find_file_def)
qed

theorem upward_search_ends_at_root_witness:
  "ancestors ''/srv/www/site'' = [''/srv/www/site'', ''/srv/www'', ''/srv'', ''/'']
   \<and> find_file search_world blank_config ''.apprc''
       = (Some ''/srv/.apprc'',
          blank_config\<lparr>diagnostics := [''/srv/www/site/.apprc'', ''/srv/www/.apprc'', ''/srv/.apprc'']\<rparr>)
   \<and> find_file search_world blank_config ''.app''
       = (None,
          blank_config\<lparr>diagnostics := [''/srv/www/site/.app'', ''/srv/www/.app'', ''/srv/.app'', ''/.app'']\<rparr>)"
proof -
  have a: "ancestors ''/srv/www/site'' = [''/srv/www/site'', ''/srv/www'', ''/srv'', ''/'']"
    by code_simp
  have p1: "probes ''/srv/www/site'' ''.apprc''
      = [''/srv/www/site/.apprc'', ''/srv/www/.apprc'', ''/srv/.apprc'', ''/.apprc'']"
    unfolding probes_def a by code_simp
  have p2: "probes ''/srv/www/site'' ''.app''
      = [''/srv/www/site/.app'', ''/srv/www/.app'', ''/srv/.app'', ''/.app'']"
    unfolding probes_def a by code_simp
  have c: "cwd search_world = ''/srv/www/site''" by (simp add: search_world_def)
  have l: "loadable search_world blank_config f = (f = ''/srv/.apprc'' \<or> f = ''/srv'')" for f
    by (auto simp: loadable_def exists_file_def search_world_def blank_config_def)
  have d: "diagnostics blank_config = []" by (simp add: blank_config_def)
  note u = upward_search_ends_at_root[of search_world blank_config "''/srv/www/site''"]
  have "find_file search_world blank_config ''.apprc''
       = (Some ''/srv/.apprc'',
          blank_config\<lparr>diagnostics := [''/srv/www/site/.apprc'', ''/srv/www/.apprc'', ''/srv/.apprc'']\<rparr>)"
    using u[of "''.apprc''"] by (simp add: c p1 l d)
  moreover have "find_file search_world blank_config ''.app''
       = (None,
          blank_config\<lparr>diagnostics := [''/srv/www/site/.app'', ''/srv/www/.app'', ''/srv/.app'', ''/.app'']\<rparr>)"
    using u[of "''.app''"] by (simp add: c p2 l d)
  ultimately show ?thesis using a by simp
qed

section \<open>Properties of the source loader\<close>

lemma probed_until_all: "\<forall>p \<in> set ps. \<not> h p \<Longrightarrow> probed_until h ps = ps"
  by (induction ps) simp_all

text \<open>A base name none of whose candidates is there leaves the probes and nothing else.\<close>

lemma try_files_direct_miss:
  "\<forall>f \<in> set cands. \<not> exists_file w f \<Longrightarrow>
   try_files w False file c cands = c\<lparr>diagnostics := diagnostics c @ cands\<rparr>"
  by (induction cands arbitrary: c) simp_all

lemma add_config_file_direct_miss:
  "file \<notin> set (configFiles c) \<Longrightarrow>
   \<forall>x \<in> set (extensions (opts c)). \<not> exists_file w (file @ x) \<Longrightarrow>
   add_config_file w c file False
     = c\<lparr>diagnostics := diagnostics c @ map (\<lambda>x. file @ x) (extensions (opts c))\<rparr>"
  by (simp add: add_config_file_def try_files_direct_miss)

lemma try_files_search_miss:
  "\<forall>cand \<in> set cands. \<forall>p \<in> set (probes (cwd w) cand). \<not> loadable w c p \<Longrightarrow>
   try_files w True file c cands
     = c\<lparr>diagnostics := diagnostics c @ concat (map (probes (cwd w)) cands)\<rparr>"
proof (induction cands arbitrary: c)
  case Nil
  then show ?case by simp
next
  case (Cons cand cands)
  let ?c1 = "c\<lparr>diagnostics := diagnostics c @ probes (cwd w) cand\<rparr>"
  from Cons.prems have none: "\<forall>p \<in> set (probes (cwd w) cand). \<not> loadable w c p" by simp
  then have f: "find_file w c cand = (None, ?c1)"
    by (simp add: find_file_def find_from_probes probed_until_all find_None_iff)
  from Cons.prems
  have "\<forall>cand \<in> set cands. \<forall>p \<in> set (probes (cwd w) cand). \<not> loadable w ?c1 p" by simp
  from Cons.IH[OF this] f show ?case by simp
qed

lemma add_config_file_search_miss:
  "file \<notin> set (configFiles c) \<Longrightarrow>
   \<forall>x \<in> set (extensions (opts c)). \<forall>p \<in> set (probes (cwd w) (file @ x)). \<not> loadable w c p \<Longrightarrow>
   add_config_file w c file True
     = c\<lparr>diagnostics := diagnostics c
          @ concat (map (\<lambda>x. probes (cwd w) (file @ x)) (extensions (opts c)))\<rparr>"
  by (simp add: add_config_file_def try_files_search_miss comp_def)

lemma add_config_file_seen:
  "file \<in> set (configFiles c) \<Longrightarrow> add_config_file w c file findIt = c"
  by (simp add: add_config_file_def)

subsection \<open>A world with one file beside the working directory\<close>

lemma twice_config_fields:
  "opts twice_config = defaultOptions" "appName twice_config = ''a''"
  "configFiles twice_config = []" "configList twice_config = []"
  "cookedConfigFiles twice_config = []" "diagnostics twice_config = []"
  by (simp_all add: twice_config_def)

lemma default_extensions:
  "extensions defaultOptions = ['''', ''.json'', ''.json5'', ''.ini'', ''.yml'', ''.yaml'', ''conf'']"
  by (simp add: defaultOptions_def)

lemma twice_fields:
  "platform twice_world = ''linux''" "homedir twice_world = ''/home/u''" "cwd twice_world = ''/a''"
  by (simp_all add: twice_world_def)

text \<open>The paths that \<^verbatim>\<open>join\<close> makes of the three directories.\<close>

lemma twice_join_args:
  "join_args ''/etc'' = ''/e/t/c''" "join_args ''/home/u'' = ''/h/o/m/e/u''"
  "join_args ''/a'' = ''/a''"
  by (simp_all add: join_args_def path_join_def normalize_def is_slash_def)

lemma twice_exists: "exists_file twice_world f = (f = ''/a'' \<or> f = ''/a.json'')"
  by (auto simp: exists_file_def twice_world_def)

lemma twice_loadable:
  "loadable twice_world c f = ((f = ''/a'' \<or> f = ''/a.json'') \<and> f \<notin> set (configFiles c))"
  by (simp add: loadable_def twice_exists)

lemma twice_get:
  "get_file twice_world [''/a''] = None" "get_file twice_world [''/a.json''] = Some ''{}''"
  by (simp_all add: get_file_def twice_world_def path_join_def normalize_def is_slash_def)

lemma twice_sel: "select_parser ''/a.json'' ''{}'' = Json"
  by (simp add: select_parser_def by_extension_def parsers_def lc_def lc_char_def)

lemma twice_parse: "parse_as twice_world Json ''{}'' = Some (JObj Mapping [])"
  by (simp add: twice_world_def)

lemma twice_ancestors: "ancestors ''/a'' = [''/a'', ''/'']"
  by code_simp

lemma twice_probes:
  "probes (cwd twice_world) rel = [path_join [''/a'', rel], path_join [''/'', rel]]"
  by (simp add: probes_def twice_fields twice_ancestors)

lemma twice_find:
  "find_file twice_world c rel =
     (List.find (loadable twice_world c) [path_join [''/a'', rel], path_join [''/'', rel]],
      c\<lparr>diagnostics := diagnostics c
          @ probed_until (loadable twice_world c) [path_join [''/a'', rel], path_join [''/'', rel]]\<rparr>)"
  using twice_probes[of rel] by (simp add: find_file_def find_from_probes)

lemma twice_join:
  "path_join [''/a'', ''a''] = ''/a/a''"
  "path_join [''/'', ''a''] = ''/a''"
  "path_join [''/a'', ''a.json''] = ''/a/a.json''"
  "path_join [''/'', ''a.json''] = ''/a.json''"
  by (simp_all add: path_join_def normalize_def is_slash_def)

text \<open>
  The direct probe of \<^verbatim>\<open>/a\<close> passes over the directory, loads \<^verbatim>\<open>/a.json\<close> and
  records the base name \<^verbatim>\<open>/a\<close>.
\<close>

lemma twice_direct_hit:
  assumes "opts c = defaultOptions" and "''/a'' \<notin> set (configFiles c)"
    and "''/a.json'' \<notin> set (configFiles c)"
  shows "add_config_file twice_world c ''/a'' False
     = c\<lparr>configList := configList c @ [JObj Mapping []],
         configFiles := configFiles c @ [''/a''],
         cookedConfigFiles := cookedConfigFiles c @ [''/a.json''],
         diagnostics := diagnostics c @ [''/a'', ''/a.json'']\<rparr>"
  using assms
  by (simp add: add_config_file_def default_extensions twice_exists twice_get twice_sel twice_parse)

text \<open>
  The upward search for \<^verbatim>\<open>a\<close> passes over \<^verbatim>\<open>/a\<close>, which is in \<^verbatim>\<open>configFiles\<close>, and
  finds \<^verbatim>\<open>/a.json\<close>, which is not: the test compares the path of the file with the base
  names recorded there.
\<close>

lemma twice_search_hit:
  assumes "opts c = defaultOptions" and "configFiles c = [''/a'']"
  shows "add_config_file twice_world c ''a'' True
     = c\<lparr>configList := configList c @ [JObj Mapping []],
         configFiles := [''/a'', ''a''],
         cookedConfigFiles := cookedConfigFiles c @ [''/a.json''],
         diagnostics := diagnostics c @ [''/a/a'', ''/a'', ''/a/a.json'', ''/a.json'']\<rparr>"
  using assms
  by (simp add: add_config_file_def default_extensions twice_find twice_join twice_loadable
        twice_exists twice_get twice_sel twice_parse)

lemma twice_search_other:
  assumes "opts c = defaultOptions" and "file \<notin> set (configFiles c)"
    and "file = ''.arc'' \<or> file = ''.a''"
  shows "add_config_file twice_world c file True
     = c\<lparr>diagnostics := diagnostics c
          @ concat (map (\<lambda>x. probes (cwd twice_world) (file @ x)) (extensions (opts c)))\<rparr>"
proof (rule add_config_file_search_miss[OF assms(2)])
  from assms(3)
  show "\<forall>x \<in> set (extensions (opts c)).
          \<forall>p \<in> set (probes (cwd twice_world) (file @ x)). \<not> loadable twice_world c p"
    by (auto simp: assms(1) twice_probes twice_loadable default_extensions
          path_join_def normalize_def is_slash_def)
qed

lemma twice_loader:
  "cookedConfigFiles (add_files twice_world twice_config) = [''/a.json'', ''/a.json'']
   \<and> configFiles (add_files twice_world twice_config) = [''/a'', ''a'']
   \<and> configList (add_files twice_world twice_config) = [JObj Mapping [], JObj Mapping []]"
proof -
  define direct where "direct = fold (\<lambda>fn c. add_config_file twice_world c fn False)
     ([''/e/t/c'', ''/e/t/c'', ''/e/t/c''] @
      [''/h/o/m/e/u'', ''/h/o/m/e/u'', ''/h/o/m/e/u'', ''/h/o/m/e/u'', ''/h/o/m/e/u'',
       ''/h/o/m/e/u''] @
      [''/a'', ''/a'', ''/a'', ''/a'', ''/a'', ''/a'']) twice_config"
  have d: "configList direct = [JObj Mapping []]" "configFiles direct = [''/a'']"
    "cookedConfigFiles direct = [''/a.json'']" "opts direct = defaultOptions"
    unfolding direct_def
    by (simp_all add: add_config_file_direct_miss twice_direct_hit add_config_file_seen
          twice_config_fields default_extensions twice_exists)
  define s1 where "s1 = add_config_file twice_world direct ''.arc'' True"
  have s1: "configList s1 = configList direct" "configFiles s1 = configFiles direct"
    "cookedConfigFiles s1 = cookedConfigFiles direct" "opts s1 = defaultOptions"
    unfolding s1_def by (simp_all add: twice_search_other d)
  define s2 where "s2 = add_config_file twice_world s1 ''.a'' True"
  have s2: "configList s2 = configList direct" "configFiles s2 = configFiles direct"
    "cookedConfigFiles s2 = cookedConfigFiles direct" "opts s2 = defaultOptions"
    unfolding s2_def by (simp_all add: twice_search_other s1 d)
  define s3 where "s3 = add_config_file twice_world s2 ''a'' True"
  have s3: "configList s3 = [JObj Mapping [], JObj Mapping []]"
    "configFiles s3 = [''/a'', ''a'']"
    "cookedConfigFiles s3 = [''/a.json'', ''/a.json'']"
    unfolding s3_def by (simp_all add: twice_search_hit s2 d)
  have "add_files twice_world twice_config = s3"
    unfolding s3_def s2_def s1_def direct_def
    by (simp add: add_files_def Let_def twice_fields twice_config_fields twice_join_args)
  with s3 show ?thesis by simp
qed

lemma twice_constructor:
  "new_config twice_world defaultOptions ''a'' (JObj Mapping [])
     = Inr ((add_files twice_world twice_config)
              \<lparr>merged := merge (add_files twice_world twice_config)\<rparr>)"
proof -
  have k: "key_app_name ''a'' defaultOptions = ''a''"
    by (simp add: key_app_name_def lc_def lc_char_def)
  have e: "parse_env ''a'' (environment twice_world) (delimiter defaultOptions)
             = Inr (JObj Mapping [])"
    by (simp add: parse_env_def twice_world_def)
  have a: "lookup (own_props (cli twice_world)) ''a'' = JUndefined"
    by (simp add: twice_world_def lookup_def)
  show ?thesis
    by (simp add: new_config_def k e a Let_def twice_config_def)
qed

text \<open>
  C3 on the code. The application \<^verbatim>\<open>a\<close> runs in the working directory \<^verbatim>\<open>/a\<close>, and
  \<^verbatim>\<open>/a.json\<close> is the only file. The constructor returns an engine that has loaded
  that one path twice: once by the direct probe of \<^verbatim>\<open>/a\<close> (the path \<^verbatim>\<open>join\<close> makes of
  the working directory) with the extension \<^verbatim>\<open>.json\<close>, and once by the upward search
  for \<^verbatim>\<open>a\<close>. The path stands twice in \<^verbatim>\<open>cookedConfigFiles\<close> and its tree twice in
  \<^verbatim>\<open>configList\<close>; \<^verbatim>\<open>configFiles\<close> holds the two base names, not the path.
\<close>

theorem same_file_loaded_twice:
  "\<exists>c. new_config twice_world defaultOptions ''a'' (JObj Mapping []) = Inr c
     \<and> cookedConfigFiles c = [''/a.json'', ''/a.json'']
     \<and> configFiles c = [''/a'', ''a'']
     \<and> configList c = [JObj Mapping [], JObj Mapping []]"
  using twice_loader by (simp add: twice_constructor)

section \<open>Properties of the parser selection\<close>

lemma line_starts_suffix:
  "s \<in> set (line_starts c) \<Longrightarrow> \<exists>pre t. c = pre @ t # s \<and> is_line_terminator t"
proof (induction c)
  case Nil
  then show ?case by simp
next
  case (Cons x xs)
  show ?case
  proof (cases "s \<in> set (line_starts xs)")
    case True
    from Cons.IH[OF this] obtain pre t where "xs = pre @ t # s" "is_line_terminator t" by blast
    then have "x # xs = (x # pre) @ t # s \<and> is_line_terminator t" by simp
    then show ?thesis by blast
  next
    case False
    with Cons.prems have "is_line_terminator x" "s = xs" by (auto split: if_splits)
    then have "x # xs = [] @ x # s \<and> is_line_terminator x" by simp
    then show ?thesis by blast
  qed
qed

lemma line_starts_member:
  "is_line_terminator t \<Longrightarrow> s \<in> set (line_starts (pre @ t # s))"
  by (induction pre) simp_all

lemma brace_first_split:
  "brace_first s = (\<exists>ws v. s = ws @ CHR ''{'' # v \<and> list_all is_space ws)"
proof
  assume "brace_first s"
  then obtain v where d: "dropWhile is_space s = CHR ''{'' # v"
    by (auto simp: brace_first_def split: list.splits)
  have "s = takeWhile is_space s @ dropWhile is_space s" by simp
  with d have "s = takeWhile is_space s @ CHR ''{'' # v" by simp
  moreover have "list_all is_space (takeWhile is_space s)"
    by (simp add: list_all_iff) (meson set_takeWhileD)
  ultimately show "\<exists>ws v. s = ws @ CHR ''{'' # v \<and> list_all is_space ws" by blast
next
  assume "\<exists>ws v. s = ws @ CHR ''{'' # v \<and> list_all is_space ws"
  then obtain ws v where s: "s = ws @ CHR ''{'' # v" and ws: "list_all is_space ws" by blast
  have "\<not> is_space CHR ''{''" by (simp add: is_space_def)
  with ws have "dropWhile is_space s = CHR ''{'' # v"
    by (simp add: s list_all_iff dropWhile_append)
  then show "brace_first s" by (simp add: brace_first_def)
qed

lemma last_line_subset: "set (last_line u) \<subseteq> set u"
  unfolding last_line_def by (auto dest: set_takeWhileD)

lemma takeWhile_stops: "\<not> P y \<Longrightarrow> set (takeWhile P (xs @ y # ys)) \<subseteq> set xs"
  by (induction xs) auto

lemma last_line_append_spaces:
  "list_all is_space ws \<Longrightarrow> is_line_terminator t \<Longrightarrow> list_all is_space (last_line (pre @ t # ws))"
proof -
  assume ws: "list_all is_space ws" and t: "is_line_terminator t"
  from t have "set (takeWhile (\<lambda>c. \<not> is_line_terminator c) (rev ws @ t # rev pre)) \<subseteq> set (rev ws)"
    by (intro takeWhile_stops) simp
  then have "set (last_line (pre @ t # ws)) \<subseteq> set ws"
    unfolding last_line_def by simp
  with ws show ?thesis by (auto simp: list_all_iff)
qed

lemma split_last_line:
  "u = last_line u \<or> (\<exists>pre t. u = pre @ t # last_line u \<and> is_line_terminator t)"
proof -
  let ?P = "\<lambda>c. \<not> is_line_terminator c"
  have r: "rev u = takeWhile ?P (rev u) @ dropWhile ?P (rev u)" by simp
  show ?thesis
  proof (cases "dropWhile ?P (rev u)")
    case Nil
    with r have "rev u = takeWhile ?P (rev u)" by simp
    then have "u = last_line u" unfolding last_line_def by (metis rev_rev_ident)
    then show ?thesis by simp
  next
    case (Cons t rest)
    then have t: "is_line_terminator t" using hd_dropWhile[of ?P "rev u"] by auto
    from r Cons have "rev u = takeWhile ?P (rev u) @ t # rest" by simp
    then have "u = rev rest @ t # last_line u"
      unfolding last_line_def by (metis rev.simps(2) rev_append rev_rev_ident append_assoc append_Cons append_Nil)
    with t show ?thesis by blast
  qed
qed

lemma rx_json_lines: "rx_json contents = brace_starts_a_line contents"
proof
  assume "rx_json contents"
  then obtain s where s: "s = contents \<or> s \<in> set (line_starts contents)" and b: "brace_first s"
    by (auto simp: rx_json_def list_ex_iff)
  from b obtain ws v where sv: "s = ws @ CHR ''{'' # v" and ws: "list_all is_space ws"
    by (auto simp: brace_first_split)
  from s show "brace_starts_a_line contents"
  proof
    assume "s = contents"
    moreover have "list_all is_space (last_line ws)"
      using ws last_line_subset[of ws] by (auto simp: list_all_iff)
    ultimately show ?thesis using sv unfolding brace_starts_a_line_def by blast
  next
    assume "s \<in> set (line_starts contents)"
    from line_starts_suffix[OF this] obtain pre t
      where c: "contents = pre @ t # s" and t: "is_line_terminator t" by blast
    have "contents = (pre @ t # ws) @ CHR ''{'' # v" by (simp add: c sv)
    with last_line_append_spaces[OF ws t, of pre] show ?thesis
      unfolding brace_starts_a_line_def by blast
  qed
next
  assume "brace_starts_a_line contents"
  then obtain u v where c: "contents = u @ CHR ''{'' # v" and l: "list_all is_space (last_line u)"
    unfolding brace_starts_a_line_def by blast
  have b: "brace_first (last_line u @ CHR ''{'' # v)"
    using l by (auto simp: brace_first_split)
  from split_last_line[of u] show "rx_json contents"
  proof
    assume "u = last_line u"
    with b c show ?thesis by (simp add: rx_json_def)
  next
    assume "\<exists>pre t. u = pre @ t # last_line u \<and> is_line_terminator t"
    then obtain pre t where u: "u = pre @ t # last_line u" and t: "is_line_terminator t" by blast
    have "contents = pre @ t # (last_line u @ CHR ''{'' # v)"
      using c u by (metis append_Cons append_assoc)
    with line_starts_member[OF t, of "last_line u @ CHR ''{'' # v" pre] b
    show ?thesis by (auto simp: rx_json_def list_ex_iff)
  qed
qed

text \<open>
  C9, as the code has it. For a file name without a recognized extension the contents
  are taken for JSON exactly when an opening brace stands first on a line of the
  contents, white space aside (the pattern is anchored with the flag \<^verbatim>\<open>m\<close>), and
  for INI otherwise. Contents whose first character after white space is the brace
  are one such case.
\<close>

theorem sniff_selects_by_line_start:
  assumes "by_extension filename = None"
  shows "(select_parser filename contents = Json) = brace_starts_a_line contents
       \<and> (select_parser filename contents = Ini) = (\<not> brace_starts_a_line contents)
       \<and> (brace_first contents \<longrightarrow> select_parser filename contents = Json)"
proof -
  have "brace_first contents \<Longrightarrow> rx_json contents" by (simp add: rx_json_def)
  with assms show ?thesis
    by (auto simp: select_parser_def rx_json_lines[symmetric])
qed

theorem sniff_selects_by_line_start_witness:
  "by_extension ''/etc/apprc'' = None
   \<and> select_parser ''/etc/apprc'' ('' '' @ [CHR 0x0A] @ ''{ }'') = Json
   \<and> select_parser ''/etc/apprc'' (''a = 1'' @ [CHR 0x0A] @ ''b = 2'') = Ini"
proof -
  have n: "by_extension ''/etc/apprc'' = None"
    by (simp add: by_extension_def)
  have b: "brace_first ('' '' @ [CHR 0x0A] @ ''{ }'')"
    by (simp add: brace_first_def is_space_def)
  have i: "select_parser ''/etc/apprc'' (''a = 1'' @ [CHR 0x0A] @ ''b = 2'') = Ini"
    by (simp add: select_parser_def n rx_json_def brace_first_def is_space_def
          is_line_terminator_def)
  from sniff_selects_by_line_start[OF n, of "'' '' @ [CHR 0x0A] @ ''{ }''"] b i n
  show ?thesis by blast
qed

text \<open>
  C9 as the specification states it fails: the text \<^verbatim>\<open>a=1\<close>, line feed, \<^verbatim>\<open>{\<close> begins with
  \<^verbatim>\<open>a\<close> when trimmed, and is taken for JSON.
\<close>

theorem sniff_trimmed_text_counterexample:
  "by_extension ''/etc/apprc'' = None
   \<and> trim (''a=1'' @ [CHR 0x0A] @ ''{'') = ''a=1'' @ [CHR 0x0A] @ ''{''
   \<and> \<not> brace_first (''a=1'' @ [CHR 0x0A] @ ''{'')
   \<and> select_parser ''/etc/apprc'' (''a=1'' @ [CHR 0x0A] @ ''{'') = Json"
  by (simp add: by_extension_def select_parser_def rx_json_def brace_first_def is_space_def
        is_line_terminator_def trim_def)

section \<open>Properties of the environment extractor and of the constructor\<close>

text \<open>
  C7 on the code. The variable \<^verbatim>\<open>APP=demo.host=1.2.3.4\<close> gives the tree the
  specification names. But the value is split at every \<^verbatim>\<open>=\<close> and only its first two pieces are
  used: \<^verbatim>\<open>APP=token=abc==\<close> gives \<^verbatim>\<open>token\<close> the value \<^verbatim>\<open>abc\<close>, not the whole
  remainder \<^verbatim>\<open>abc==\<close> that the prefixed form \<^verbatim>\<open>APP_TOKEN=abc==\<close> keeps.
\<close>

theorem single_value_form_cut_at_second_equals:
  "parse_env ''app'' [(''APP'', JStr ''demo.host=1.2.3.4'')] CHR ''_''
     = Inr (JObj Mapping [(''demo'', JObj Mapping [(''host'', JStr ''1.2.3.4'')])])
   \<and> parse_env ''app'' [(''APP'', JStr ''token=abc=='')] CHR ''_''
     = Inr (JObj Mapping [(''token'', JStr ''abc'')])
   \<and> parse_env ''app'' [(''APP_TOKEN'', JStr ''abc=='')] CHR ''_''
     = Inr (JObj Mapping [(''token'', JStr ''abc=='')])"
  by code_simp

text \<open>
  C8 on the code. \<^verbatim>\<open>appName.replace( '-', ... )\<close> has a string for pattern and so
  replaces the first hyphen only: the key of \<^verbatim>\<open>My-Cool-App\<close> keeps its second hyphen.
\<close>

theorem key_app_name_keeps_later_hyphens:
  "key_app_name ''My-Cool-App'' defaultOptions = ''my_cool-app''"
  by (simp add: key_app_name_def defaultOptions_def lc_def lc_char_def)

text \<open>
  The key is assigned by the constructor and by nothing else: \<^verbatim>\<open>get\<close>, \<^verbatim>\<open>set\<close> and the
  loader leave it as it is.
\<close>

lemma find_from_keyAppName: "keyAppName (snd (find_from w c start rel)) = keyAppName c"
  by (simp add: find_from_probes)

lemma try_files_keyAppName: "keyAppName (try_files w findIt file c cands) = keyAppName c"
proof (induction cands arbitrary: c)
  case Nil
  then show ?case by simp
next
  case (Cons cand cands)
  obtain found c1 where step:
    "(if findIt then find_file w c cand
      else (Some cand, c\<lparr>diagnostics := diagnostics c @ [cand]\<rparr>)) = (found, c1)"
    by (cases "if findIt then find_file w c cand
      else (Some cand, c\<lparr>diagnostics := diagnostics c @ [cand]\<rparr>)") blast
  then have k: "keyAppName c1 = keyAppName c"
    by (auto simp: find_file_def find_from_probes split: if_splits)
  show ?case
    by (simp add: step Cons.IH[of c1] k split: option.splits)
qed

lemma key_fixed_for_lifetime:
  "keyAppName (snd (get c)) = keyAppName c"
  "set_value c key v = Inr c' \<Longrightarrow> keyAppName c' = keyAppName c"
  "keyAppName (add_config_file w c file findIt) = keyAppName c"
  "new_config w os name dflt = Inr c' \<Longrightarrow> keyAppName c' = key_app_name name os"
proof -
  show "keyAppName (snd (get c)) = keyAppName c" by (simp add: get_def)
  show "set_value c key v = Inr c' \<Longrightarrow> keyAppName c' = keyAppName c"
    by (auto simp: set_value_def split: sum.splits)
  show a: "keyAppName (add_config_file w c f b) = keyAppName c" for w c f b
    by (simp add: add_config_file_def try_files_keyAppName)
  have "keyAppName (add_files w c) = keyAppName c" for c
    by (simp add: add_files_def Let_def a)
  then show "new_config w os name dflt = Inr c' \<Longrightarrow> keyAppName c' = key_app_name name os"
    by (auto simp: new_config_def Let_def split: sum.splits)
qed

text \<open>The cache is fresh after the constructor, after \<^verbatim>\<open>set\<close> and after \<^verbatim>\<open>get\<close>.\<close>

lemma merge_ignores_cache: "merge (c\<lparr>merged := m\<rparr>) = merge c"
  by (simp add: merge_def sources_def)

lemma cache_fresh_kept:
  "cache_fresh c \<Longrightarrow> cache_fresh (snd (get c))"
  "set_value c key v = Inr c' \<Longrightarrow> cache_fresh c'"
  "new_config w os name dflt = Inr c' \<Longrightarrow> cache_fresh c'"
proof -
  show "cache_fresh c \<Longrightarrow> cache_fresh (snd (get c))"
    by (auto simp: cache_fresh_def get_def merge_ignores_cache)
  show "set_value c key v = Inr c' \<Longrightarrow> cache_fresh c'"
    by (auto simp: set_value_def cache_fresh_def split: sum.splits)
  show "new_config w os name dflt = Inr c' \<Longrightarrow> cache_fresh c'"
    by (auto simp: new_config_def Let_def cache_fresh_def merge_ignores_cache split: sum.splits)
qed

end
